theory Spec2Isabelle
  imports Main
begin

section \<open>Text, characters and the string primitives of the source\<close>

text \<open>
  The engine works on the text of SCSS files after decoding. A JavaScript string is a
  sequence of UTF-16 code units; the model covers the texts whose code units lie in
  U+0000..U+00FF and writes such a text as a \<^typ>\<open>string\<close>, one \<^typ>\<open>char\<close> per
  code unit. Regular expressions without the \<open>u\<close> flag (all of the source's) work on
  code units, so on this range the character classes below are the source's.
\<close>

definition code :: "char \<Rightarrow> nat" where
  "code c = of_char c"

text \<open>\<open>[0-9]\<close> and \<open>\d\<close>.\<close>

definition is_digit :: "char \<Rightarrow> bool" where
  "is_digit c = (48 \<le> code c \<and> code c \<le> 57)"

text \<open>\<open>[a-zA-Z0-9_-]\<close>.\<close>

definition is_ident :: "char \<Rightarrow> bool" where
  "is_ident c = ((97 \<le> code c \<and> code c \<le> 122) \<or> (65 \<le> code c \<and> code c \<le> 90)
     \<or> is_digit c \<or> c = CHR ''_'' \<or> c = CHR ''-'')"

text \<open>
  \<open>\s\<close>, which is also what \<open>String.prototype.trim\<close> strips: ECMAScript's WhiteSpace and
  LineTerminator. Below U+0100 these are TAB, LF, VT, FF, CR, SPACE and NO-BREAK SPACE.
\<close>

definition is_ws :: "char \<Rightarrow> bool" where
  "is_ws c = (code c = 9 \<or> code c = 10 \<or> code c = 11 \<or> code c = 12 \<or> code c = 13
     \<or> code c = 32 \<or> code c = 160)"

text \<open>\<open>.\<close> without the \<open>s\<close> flag: anything but a line terminator (LF, CR below U+0100).\<close>

definition is_dot :: "char \<Rightarrow> bool" where
  "is_dot c = (code c \<noteq> 10 \<and> code c \<noteq> 13)"

text \<open>\<open>[\s\S]\<close>.\<close>

definition is_any :: "char \<Rightarrow> bool" where
  "is_any c = True"

text \<open>\<open>['"]\<close> and \<open>['"$]\<close>.\<close>

definition is_quote :: "char \<Rightarrow> bool" where
  "is_quote c = (code c = 39 \<or> code c = 34)"

definition is_quote_or_dollar :: "char \<Rightarrow> bool" where
  "is_quote_or_dollar c = (is_quote c \<or> c = CHR ''$'')"

text \<open>\<open>s.trim()\<close>.\<close>

definition trim :: "string \<Rightarrow> string" where
  "trim s = rev (dropWhile is_ws (rev (dropWhile is_ws s)))"

text \<open>\<open>s.replace(/['"]/g, '')\<close> and \<open>s.replace(/['"$]/g, '')\<close>.\<close>

definition strip_quotes :: "string \<Rightarrow> string" where
  "strip_quotes s = filter (\<lambda>c. \<not> is_quote c) s"

definition strip_quotes_dollar :: "string \<Rightarrow> string" where
  "strip_quotes_dollar s = filter (\<lambda>c. \<not> is_quote_or_dollar c) s"

text \<open>
  \<open>s.split(sep)\<close> for a one-character separator: the pieces between the separators, in
  order; always at least one piece (\<open>''.split(',')\<close> is \<open>['']\<close>).
\<close>

fun split :: "char \<Rightarrow> string \<Rightarrow> string list" where
  "split sep [] = [[]]"
| "split sep (c # cs) =
     (if c = sep then [] # split sep cs
      else (case split sep cs of p # ps \<Rightarrow> (c # p) # ps | [] \<Rightarrow> [[c]]))"

text \<open>\<open>s.startsWith(p)\<close>.\<close>

fun startsWith :: "string \<Rightarrow> string \<Rightarrow> bool" where
  "startsWith s [] = True"
| "startsWith [] (p # ps) = False"
| "startsWith (c # cs) (p # ps) = (c = p \<and> startsWith cs ps)"

section \<open>Regular expressions\<close>

text \<open>
  The fragment of ECMAScript regular expressions the source uses, with the
  backtracking semantics of the language: a pattern is a sequence of nodes, matched left
  to right against the rest of the input; a greedy star first tries one more character,
  a lazy star first tries the continuation, an alternative tries its left branch first.
  All quantified atoms of the source are character classes. \<open>Mark\<close> stands for a
  parenthesis of a capture group; \<open>Bol\<close> and \<open>Eol\<close> are \<open>^\<close> and \<open>$\<close> (no \<open>m\<close> flag:
  start and end of the input).
\<close>

datatype re =
    Cls "char \<Rightarrow> bool"
  | Star "char \<Rightarrow> bool"
  | Lazy "char \<Rightarrow> bool"
  | Alt "re list" "re list"
  | Mark
  | Bol
  | Eol

definition chr :: "char \<Rightarrow> re" where
  "chr c = Cls (\<lambda>x. x = c)"

definition lit :: "string \<Rightarrow> re list" where
  "lit s = map chr s"

text \<open>\<open>c+\<close>, greedy.\<close>

definition one_or_more :: "(char \<Rightarrow> bool) \<Rightarrow> re list" where
  "one_or_more c = [Cls c, Star c]"

text \<open>
  \<open>re_match rs b s\<close> matches the nodes \<open>rs\<close> at the front of \<open>s\<close>; \<open>b\<close> tells whether
  \<open>s\<close> is the whole input (the position is 0). The result is the first match in
  backtracking order: the rest of the input at every \<open>Mark\<close> passed, and the rest of the
  input after the match.
\<close>

function re_match :: "re list \<Rightarrow> bool \<Rightarrow> string \<Rightarrow> (string list \<times> string) option" where
  "re_match [] b s = Some ([], s)"
| "re_match (Cls c # r) b [] = None"
| "re_match (Cls c # r) b (x # xs) = (if c x then re_match r False xs else None)"
| "re_match (Star c # r) b [] = re_match r b []"
| "re_match (Star c # r) b (x # xs) =
     (if c x then (case re_match (Star c # r) False xs of
                     Some z \<Rightarrow> Some z
                   | None \<Rightarrow> re_match r b (x # xs))
      else re_match r b (x # xs))"
| "re_match (Lazy c # r) b [] = re_match r b []"
| "re_match (Lazy c # r) b (x # xs) =
     (case re_match r b (x # xs) of
        Some z \<Rightarrow> Some z
      | None \<Rightarrow> (if c x then re_match (Lazy c # r) False xs else None))"
| "re_match (Alt p q # r) b s =
     (case re_match (p @ r) b s of Some z \<Rightarrow> Some z | None \<Rightarrow> re_match (q @ r) b s)"
| "re_match (Mark # r) b s =
     (case re_match r b s of Some (ms, t) \<Rightarrow> Some (s # ms, t) | None \<Rightarrow> None)"
| "re_match (Bol # r) b s = (if b then re_match r b s else None)"
| "re_match (Eol # r) b s = (if s = [] then re_match r b s else None)"
  by pat_completeness auto
termination
  by (relation "measures [\<lambda>(rs, b, s). length s, \<lambda>(rs, b, s). size_list size rs]") auto

text \<open>
  The leftmost match: the engine tries the start positions from the current one to the
  end of the input (inclusive), and takes the first position where the pattern matches.
\<close>

fun re_search :: "re list \<Rightarrow> bool \<Rightarrow> string \<Rightarrow> (string list \<times> string) option" where
  "re_search rs b [] = re_match rs b []"
| "re_search rs b (x # xs) =
     (case re_match rs b (x # xs) of
        Some z \<Rightarrow> Some z
      | None \<Rightarrow> re_search rs False xs)"

text \<open>\<open>pattern.test(s)\<close> for a pattern without the \<open>g\<close> flag.\<close>

definition re_test :: "re list \<Rightarrow> string \<Rightarrow> bool" where
  "re_test rs s = (re_search rs True s \<noteq> None)"

text \<open>The text between two marks: from the rest \<open>a\<close> at the first to the rest \<open>b\<close> at the second.\<close>

definition between :: "string \<Rightarrow> string \<Rightarrow> string" where
  "between a b = take (length a - length b) a"

text \<open>
  The loop \<open>while ((x = pattern.exec(content)) !== null) { ... }\<close> for a pattern with the
  \<open>g\<close> flag, created afresh before the loop: each \<open>exec\<close> searches from \<open>lastIndex\<close>
  (0 at first, then the end of the previous match). The result lists the marks of the
  successive matches. A match that consumes nothing would leave \<open>lastIndex\<close> where it
  is and make the source loop forever. The three patterns of the source begin with a
  literal character, so every match of theirs consumes input and the last branch is
  never taken for them (lemma \<open>scanners_advance\<close> below).
\<close>

function re_exec_all :: "re list \<Rightarrow> bool \<Rightarrow> string \<Rightarrow> string list list" where
  "re_exec_all rs b s =
     (case re_search rs b s of
        None \<Rightarrow> []
      | Some (ms, t) \<Rightarrow> if length t < length s then ms # re_exec_all rs False t else [])"
  by pat_completeness auto
termination
  by (relation "measure (\<lambda>(rs, b, s). length s)") auto

declare re_exec_all.simps [simp del]

section \<open>The validity filter\<close>

text \<open>The array \<open>invalidPatterns\<close> of \<open>isValidClassName\<close>, in the source's order.\<close>

definition invalidPatterns :: "re list list" where
  "invalidPatterns =
    [ [Bol, chr CHR ''$''],
      [Bol, chr CHR ''#''],
      [Alt [chr CHR ''$''] [chr CHR ''%'']],
      [Bol, Cls is_digit],
      [Bol, chr CHR ''-''],
      [Cls is_ws],
      [Cls (\<lambda>c. c = CHR ''('' \<or> c = CHR '')'')],
      [chr CHR '';'', Eol],
      [Bol] @ one_or_more is_digit @ [Alt (lit ''px'') (lit ''rem''), Eol],
      [Bol] @ one_or_more is_digit @ [Eol] ]"

text \<open>\<open>return !invalidPatterns.some(pattern => pattern.test(name))\<close>.\<close>

definition isValidClassName :: "string \<Rightarrow> bool" where
  "isValidClassName name = (\<not> list_ex (\<lambda>pattern. re_test pattern name) invalidPatterns)"

section \<open>The three scanners of \<open>parseScssFiles\<close>\<close>

text \<open>\<open>/\$([a-zA-Z0-9_-]+):\s*\(([\s\S]*?)\)\s*!default;/g\<close>\<close>

definition variableRegex :: "re list" where
  "variableRegex =
     [chr CHR ''$'', Mark] @ one_or_more is_ident @ [Mark, chr CHR '':'', Star is_ws, chr CHR ''('',
      Mark, Lazy is_any, Mark, chr CHR '')'', Star is_ws] @ lit ''!default;''"

text \<open>\<open>/@include\s+([a-zA-Z0-9_-]+)\((.*?)\);/g\<close>\<close>

definition mixinCallRegex :: "re list" where
  "mixinCallRegex =
     lit ''@include'' @ one_or_more is_ws @ [Mark] @ one_or_more is_ident @ [Mark, chr CHR ''('',
      Mark, Lazy is_dot, Mark, chr CHR '')'', chr CHR '';'']"

text \<open>\<open>/\.([a-zA-Z0-9_-]+)\s*{/g\<close>\<close>

definition classRegex :: "re list" where
  "classRegex = [chr CHR ''.'', Mark] @ one_or_more is_ident @ [Mark, Star is_ws, chr CHR ''{'']"

text \<open>
  The capture groups of one match, from its marks: group 1 lies between the first two
  marks, group 2 between the next two.
\<close>

fun groups2 :: "string list \<Rightarrow> string \<times> string" where
  "groups2 (a1 # b1 # a2 # b2 # _) = (between a1 b1, between a2 b2)"
| "groups2 _ = ([], [])"

fun group1 :: "string list \<Rightarrow> string" where
  "group1 (a1 # b1 # _) = between a1 b1"
| "group1 _ = []"

text \<open>The pairs \<open>(variableName, variableContent)\<close> of the first loop, in text order.\<close>

definition variable_matches :: "string \<Rightarrow> (string \<times> string) list" where
  "variable_matches content = map groups2 (re_exec_all variableRegex True content)"

text \<open>The pairs \<open>(mixinName, mixinArgs)\<close> of the second loop.\<close>

definition mixin_matches :: "string \<Rightarrow> (string \<times> string) list" where
  "mixin_matches content = map groups2 (re_exec_all mixinCallRegex True content)"

text \<open>The names \<open>classMatch[1]\<close> of the third loop.\<close>

definition class_matches :: "string \<Rightarrow> string list" where
  "class_matches content = map group1 (re_exec_all classRegex True content)"

section \<open>Objects and the set of class names\<close>

text \<open>
  \<open>classNames\<close> is a \<open>Set<string>\<close>: it keeps its elements in insertion order, and
  \<open>add\<close> of an element it has changes nothing. \<open>Array.from(classNames)\<close> is the list.
\<close>

definition set_add :: "string \<Rightarrow> string list \<Rightarrow> string list" where
  "set_add x xs = (if x \<in> set xs then xs else xs @ [x])"

text \<open>
  The object \<open>result\<close> that \<open>parseVariableContent\<close> builds: its own properties in
  creation order, each holding a string or \<open>undefined\<close> (\<open>None\<close>).
\<close>

type_synonym jsobj = "(string \<times> string option) list"

text \<open>Creating or overwriting an own property: an existing key keeps its place.\<close>

fun obj_put :: "string \<Rightarrow> 'v \<Rightarrow> (string \<times> 'v) list \<Rightarrow> (string \<times> 'v) list" where
  "obj_put k v [] = [(k, v)]"
| "obj_put k v ((k', v') # ps) = (if k' = k then (k, v) # ps else (k', v') # obj_put k v ps)"

text \<open>
  \<open>result[k] = v\<close> on an object created by \<open>{}\<close>, for \<open>v\<close> a string or \<open>undefined\<close>. The
  key \<open>__proto__\<close> reaches the setter inherited from \<open>Object.prototype\<close>, which ignores
  a value that is neither an object nor \<open>null\<close>: no property is created.
\<close>

definition obj_set :: "jsobj \<Rightarrow> string \<Rightarrow> string option \<Rightarrow> jsobj" where
  "obj_set obj k v = (if k = ''__proto__'' then obj else obj_put k v obj)"

text \<open>
  \<open>Object.keys\<close> lists the own enumerable string keys: first the array indices (the
  canonical decimal numerals of the integers below \<open>2^32 - 1\<close>) in ascending numeric
  order, then the other keys in creation order.
\<close>

fun numeral_le :: "string \<Rightarrow> string \<Rightarrow> bool" where
  "numeral_le [] ys = True"
| "numeral_le (x # xs) [] = False"
| "numeral_le (x # xs) (y # ys) = (code x < code y \<or> (x = y \<and> numeral_le xs ys))"

text \<open>
  The numeric order of two canonical decimal numerals: the shorter one is the smaller,
  and two of the same length compare digit by digit.
\<close>

definition index_le :: "string \<Rightarrow> string \<Rightarrow> bool" where
  "index_le a b = (length a < length b \<or> (length a = length b \<and> numeral_le a b))"

text \<open>An array index: at most \<open>2^32 - 2 = 4294967294\<close>, written without a leading zero.\<close>

fun is_array_index :: "string \<Rightarrow> bool" where
  "is_array_index [] = False"
| "is_array_index (c # cs) =
     (list_all is_digit (c # cs) \<and> (if c = CHR ''0'' then cs = [] else True)
      \<and> index_le (c # cs) ''4294967294'')"

fun insert_index :: "string \<Rightarrow> string list \<Rightarrow> string list" where
  "insert_index k [] = [k]"
| "insert_index k (x # xs) = (if index_le k x then k # x # xs else x # insert_index k xs)"

definition sort_indices :: "string list \<Rightarrow> string list" where
  "sort_indices ks = foldr insert_index ks []"

definition ordered_keys :: "string list \<Rightarrow> string list" where
  "ordered_keys ks =
     sort_indices (filter is_array_index ks) @ filter (\<lambda>k. \<not> is_array_index k) ks"

text \<open>The decimal numeral of a number, for the index keys of a string.\<close>

function decimal :: "nat \<Rightarrow> string" where
  "decimal n = (if n < 10 then [char_of (48 + n)] else decimal (n div 10) @ [char_of (48 + n mod 10)])"
  by pat_completeness auto
termination
  by (relation "measure id") auto

text \<open>
  What \<open>variables[name]\<close> can evaluate to: \<open>undefined\<close>, a string, an object built by
  \<open>parseVariableContent\<close>, one of the functions of \<open>Object.prototype\<close>, or
  \<open>Object.prototype\<close> itself, which has no enumerable property (modelled as the empty
  object).
\<close>

datatype jsval = Undefined | Str string | Obj jsobj | Fun

text \<open>Truthiness, as tested by \<open>if (map)\<close> and \<open>if (map && scales)\<close>.\<close>

fun truthy :: "jsval \<Rightarrow> bool" where
  "truthy Undefined = False"
| "truthy (Str s) = (s \<noteq> [])"
| "truthy (Obj obj) = True"
| "truthy Fun = True"

text \<open>
  \<open>Object.keys(v)\<close> for a truthy \<open>v\<close>: the keys of an object, the indices \<open>0 .. n-1\<close> of a
  string of length \<open>n\<close>, nothing for a function. The source never calls it on a falsy
  value (it would throw on \<open>undefined\<close>).
\<close>

fun object_keys :: "jsval \<Rightarrow> string list" where
  "object_keys (Obj obj) = ordered_keys (map fst obj)"
| "object_keys (Str s) = map decimal [0 ..< length s]"
| "object_keys Fun = []"
| "object_keys Undefined = []"

text \<open>
  The object \<open>variables\<close>, created by \<open>{}\<close> once per call of \<open>parseScssFiles\<close>: its own
  properties, and the object a declaration named \<open>__proto__\<close> has installed as its
  prototype, if any (\<open>variables['__proto__'] = obj\<close> calls the inherited setter, which
  replaces the prototype \<open>Object.prototype\<close> by \<open>obj\<close>; the prototype of \<open>obj\<close> is
  \<open>Object.prototype\<close>).
\<close>

record js_variables =
  own :: "(string \<times> jsobj) list"
  proto :: "jsobj option"

definition empty_variables :: js_variables where
  "empty_variables = \<lparr>own = [], proto = None\<rparr>"

text \<open>\<open>variables[variableName] = obj\<close>.\<close>

definition variables_set :: "js_variables \<Rightarrow> string \<Rightarrow> jsobj \<Rightarrow> js_variables" where
  "variables_set vs k obj =
     (if k = ''__proto__'' then vs\<lparr>proto := Some obj\<rparr> else vs\<lparr>own := obj_put k obj (own vs)\<rparr>)"

text \<open>The function-valued properties of \<open>Object.prototype\<close>.\<close>

definition object_prototype_functions :: "string list" where
  "object_prototype_functions =
     [''constructor'', ''__defineGetter__'', ''__defineSetter__'', ''hasOwnProperty'',
      ''__lookupGetter__'', ''__lookupSetter__'', ''isPrototypeOf'', ''propertyIsEnumerable'',
      ''toString'', ''valueOf'', ''toLocaleString'']"

definition object_prototype_get :: "js_variables \<Rightarrow> string \<Rightarrow> jsval" where
  "object_prototype_get vs k =
     (if k = ''__proto__'' then Obj (case proto vs of Some p \<Rightarrow> p | None \<Rightarrow> [])
      else if k \<in> set object_prototype_functions then Fun
      else Undefined)"

text \<open>
  \<open>variables[name]\<close>: an own property, else a property of the installed prototype, else
  a property of \<open>Object.prototype\<close>, else \<open>undefined\<close>.
\<close>

definition variables_get :: "js_variables \<Rightarrow> string \<Rightarrow> jsval" where
  "variables_get vs k =
     (case map_of (own vs) k of
        Some obj \<Rightarrow> Obj obj
      | None \<Rightarrow>
          (case proto vs of
             None \<Rightarrow> object_prototype_get vs k
           | Some p \<Rightarrow>
               (case map_of p k of
                  Some (Some s) \<Rightarrow> Str s
                | Some None \<Rightarrow> Undefined
                | None \<Rightarrow> object_prototype_get vs k)))"

section \<open>The extraction engine of \<open>src/unnamed/part_000\<close>\<close>

text \<open>\<open>const [key, value] = parts\<close>: the first two elements, \<open>undefined\<close> where missing.\<close>

fun key_value :: "string list \<Rightarrow> string \<times> string option" where
  "key_value (k # v # _) = (k, Some v)"
| "key_value [k] = (k, None)"
| "key_value [] = ([], None)"

definition parseVariableContent :: "string \<Rightarrow> jsobj" where
  "parseVariableContent content =
     (let entries = map trim (split CHR '','' content)
      in fold (\<lambda>entry result.
                 (case key_value (map trim (split CHR '':'' entry)) of
                    (key, val) \<Rightarrow> obj_set result (strip_quotes key) val))
              entries [])"

definition addClassesFromVariable :: "string \<Rightarrow> string list \<Rightarrow> string list" where
  "addClassesFromVariable content classNames =
     (let entries = map trim (split CHR '','' content)
      in fold (\<lambda>entry classNames.
                 (case key_value (split CHR '':'' entry) of
                    (key, _) \<Rightarrow>
                      if key \<noteq> [] then
                        (let cleanKey = trim (strip_quotes key)
                         in if isValidClassName cleanKey then set_add cleanKey classNames
                            else classNames)
                      else classNames))
              entries classNames)"

text \<open>The loop bodies of \<open>processMixinCall\<close>: every key of a map, if valid.\<close>

definition add_keys :: "jsval \<Rightarrow> string list \<Rightarrow> string list" where
  "add_keys mp classNames =
     fold (\<lambda>key classNames. if isValidClassName key then set_add key classNames else classNames)
          (object_keys mp) classNames"

definition add_cross :: "string \<Rightarrow> jsval \<Rightarrow> jsval \<Rightarrow> string list \<Rightarrow> string list" where
  "add_cross name mp scales classNames =
     fold (\<lambda>key classNames.
             fold (\<lambda>scaleKey classNames.
                     (let className = name @ key @ ''-'' @ scaleKey
                      in if isValidClassName className then set_add className classNames
                         else classNames))
                  (object_keys scales) classNames)
          (object_keys mp) classNames"

definition processMixinCall ::
    "string \<Rightarrow> string \<Rightarrow> js_variables \<Rightarrow> string list \<Rightarrow> string list" where
  "processMixinCall mixinName mixinArgs variables classNames =
     (let args = map (\<lambda>arg. strip_quotes (trim arg)) (split CHR '','' mixinArgs)
      in if mixinName = ''ds4-scale-class'' then
           (case args of
              name # mapName # scalesName # _ \<Rightarrow>
                (let mp = variables_get variables mapName;
                     scales = variables_get variables scalesName
                 in if truthy mp \<and> truthy scales then add_cross name mp scales classNames
                    else classNames)
            | _ \<Rightarrow> classNames)
         else if mixinName = ''ds4-scale-font-class'' \<or> mixinName = ''style-class'' then
           (case args of
              _ # mapName # _ \<Rightarrow>
                (let mp = variables_get variables mapName
                 in if truthy mp then add_keys mp classNames else classNames)
            | _ \<Rightarrow> classNames)
         else if mixinName = ''ds4-scale-border-radius-class''
                 \<or> mixinName = ''ds4-border-radius-class'' then
           (case args of
              mapName # _ \<Rightarrow>
                (let mp = variables_get variables mapName
                 in if truthy mp then add_keys mp classNames else classNames)
            | _ \<Rightarrow> classNames)
         else classNames)"

text \<open>
  One iteration of \<open>for (const file of files)\<close>, on the text of the file: the three
  loops in the source's order. \<open>variables\<close> and \<open>classNames\<close> are declared before the
  \<open>for\<close> loop, so both are carried from one file to the next.
\<close>

definition scan_variables ::
    "string \<Rightarrow> js_variables \<times> string list \<Rightarrow> js_variables \<times> string list" where
  "scan_variables content st =
     fold (\<lambda>(variableName, variableContent) (variables, classNames).
             (variables_set variables variableName (parseVariableContent variableContent),
              addClassesFromVariable variableContent classNames))
          (variable_matches content) st"

definition scan_mixins :: "string \<Rightarrow> js_variables \<Rightarrow> string list \<Rightarrow> string list" where
  "scan_mixins content variables classNames =
     fold (\<lambda>(mixinName, mixinArgs) classNames.
             processMixinCall mixinName mixinArgs variables classNames)
          (mixin_matches content) classNames"

definition scan_classes :: "string \<Rightarrow> string list \<Rightarrow> string list" where
  "scan_classes content classNames =
     fold (\<lambda>name classNames. if isValidClassName name then set_add name classNames else classNames)
          (class_matches content) classNames"

definition parse_file ::
    "string \<Rightarrow> js_variables \<times> string list \<Rightarrow> js_variables \<times> string list" where
  "parse_file content st =
     (case scan_variables content st of
        (variables, classNames) \<Rightarrow>
          (variables, scan_classes content (scan_mixins content variables classNames)))"

text \<open>
  \<open>parseScssFiles\<close>, on the texts \<open>fs.readFileSync(file, 'utf-8')\<close> of the files in order.
\<close>

definition parseScssFiles :: "string list \<Rightarrow> string list" where
  "parseScssFiles files = snd (fold parse_file files (empty_variables, []))"

section \<open>The extraction engine of \<open>src/src/server.ts\<close>\<close>

text \<open>
  \<open>isValidClassName\<close> is the same function in both files. The first loop of this
  \<open>parseScssFiles\<close> has, inline, the body of the other file's \<open>addClassesFromVariable\<close>;
  there is no symbol table, and no loop over class selectors.

  This file's \<open>addClassesFromVariable(content, variableName, classNames)\<close> builds its
  pattern from the text of \<open>variableName\<close>:
  \<open>new RegExp(`\\$${variableName}:\\s*\\((([\\s\\S]*?))\\)\\s*!default;`)\<close>.
  The name is arbitrary text, read by the constructor as pattern syntax. What the
  engine does with a pattern text is a parameter \<open>regexp_exec\<close> of the model:
  \<open>regexp_exec source content\<close> stands for \<open>new RegExp(source).exec(content)\<close>. Either
  the constructor throws a \<open>SyntaxError\<close>, or \<open>exec\<close> answers \<open>null\<close>, or it answers a
  match, whose group 1 is a string or \<open>undefined\<close>.
\<close>

datatype exec_result = ExecThrows | ExecNull | ExecMatch "string option"

datatype js_error = SyntaxError | TypeError

definition backslash :: char where
  "backslash = CHR 0x5C"

text \<open>The pattern text \<open>\$NAME:\s*\((([\s\S]*?))\)\s*!default;\<close> that the template yields.\<close>

definition variable_pattern :: "string \<Rightarrow> string" where
  "variable_pattern variableName =
     [backslash] @ ''$'' @ variableName @ '':'' @ [backslash] @ ''s*'' @ [backslash] @ ''(((''
       @ ''['' @ [backslash] @ ''s'' @ [backslash] @ ''S]*?))'' @ [backslash] @ '')''
       @ [backslash] @ ''s*!default;''"

text \<open>
  \<open>addClassesFromVariable\<close> of \<open>server.ts\<close>. With a match, \<open>variableContent = match[1]\<close>;
  \<open>variableContent.split\<close> throws a \<open>TypeError\<close> when group 1 is \<open>undefined\<close>. The loop
  over the entries is the one of the other file's \<open>addClassesFromVariable\<close>.
\<close>

definition addClassesFromVariable_server ::
    "(string \<Rightarrow> string \<Rightarrow> exec_result) \<Rightarrow> string \<Rightarrow> string \<Rightarrow> string list
       \<Rightarrow> js_error + string list" where
  "addClassesFromVariable_server regexp_exec content variableName classNames =
     (case regexp_exec (variable_pattern variableName) content of
        ExecThrows \<Rightarrow> Inl SyntaxError
      | ExecNull \<Rightarrow> Inr classNames
      | ExecMatch None \<Rightarrow> Inl TypeError
      | ExecMatch (Some variableContent) \<Rightarrow>
          Inr (addClassesFromVariable variableContent classNames))"

text \<open>The body of the loop over mixin calls (\<open>args\<close> is never empty).\<close>

definition mixin_call_server ::
    "(string \<Rightarrow> string \<Rightarrow> exec_result) \<Rightarrow> string \<Rightarrow> string \<Rightarrow> string \<Rightarrow> string list
       \<Rightarrow> js_error + string list" where
  "mixin_call_server regexp_exec content mixinName mixinArgs classNames =
     (if startsWith mixinName ''ds4-scale-'' \<or> mixinName = ''style-class'' then
        (case map trim (split CHR '','' mixinArgs) of
           [] \<Rightarrow> Inr classNames
         | arg0 # rest \<Rightarrow>
             (let prefix = trim (strip_quotes arg0);
                  classNames1 = (if isValidClassName prefix then set_add prefix classNames
                                 else classNames)
              in (case rest of
                    arg1 # _ \<Rightarrow>
                      if mixinName = ''style-class'' then
                        addClassesFromVariable_server regexp_exec content
                          (trim (strip_quotes_dollar arg1)) classNames1
                      else Inr classNames1
                  | [] \<Rightarrow> Inr classNames1)))
      else Inr classNames)"

text \<open>The loops; an exception ends the pass.\<close>

fun scan_mixins_server ::
    "(string \<Rightarrow> string \<Rightarrow> exec_result) \<Rightarrow> string \<Rightarrow> (string \<times> string) list \<Rightarrow> string list
       \<Rightarrow> js_error + string list" where
  "scan_mixins_server regexp_exec content [] classNames = Inr classNames"
| "scan_mixins_server regexp_exec content ((mixinName, mixinArgs) # calls) classNames =
     (case mixin_call_server regexp_exec content mixinName mixinArgs classNames of
        Inl e \<Rightarrow> Inl e
      | Inr classNames1 \<Rightarrow> scan_mixins_server regexp_exec content calls classNames1)"

definition parse_file_server ::
    "(string \<Rightarrow> string \<Rightarrow> exec_result) \<Rightarrow> string \<Rightarrow> string list \<Rightarrow> js_error + string list" where
  "parse_file_server regexp_exec content classNames =
     scan_mixins_server regexp_exec content (mixin_matches content)
       (fold (\<lambda>(variableName, variableContent) classNames.
                addClassesFromVariable variableContent classNames)
             (variable_matches content) classNames)"

fun parse_files_server ::
    "(string \<Rightarrow> string \<Rightarrow> exec_result) \<Rightarrow> string list \<Rightarrow> string list \<Rightarrow> js_error + string list" where
  "parse_files_server regexp_exec [] classNames = Inr classNames"
| "parse_files_server regexp_exec (content # files) classNames =
     (case parse_file_server regexp_exec content classNames of
        Inl e \<Rightarrow> Inl e
      | Inr classNames1 \<Rightarrow> parse_files_server regexp_exec files classNames1)"

definition parseScssFiles_server ::
    "(string \<Rightarrow> string \<Rightarrow> exec_result) \<Rightarrow> string list \<Rightarrow> js_error + string list" where
  "parseScssFiles_server regexp_exec files = parse_files_server regexp_exec files []"

section \<open>The validity filter in the words of the specification\<close>

text \<open>
  Section 4.1 of the specification lists when a candidate is rejected. A numeric size
  literal is a non-empty run of digits followed by exactly \<open>px\<close> or \<open>rem\<close>.
\<close>

definition is_size_literal :: "string \<Rightarrow> bool" where
  "is_size_literal s =
     (takeWhile is_digit s \<noteq> [] \<and> (dropWhile is_digit s = ''px'' \<or> dropWhile is_digit s = ''rem''))"

definition spec_is_valid :: "string \<Rightarrow> bool" where
  "spec_is_valid candidate =
     (\<not> (startsWith candidate ''$'' \<or> startsWith candidate ''#''
         \<or> CHR ''$'' \<in> set candidate \<or> CHR ''%'' \<in> set candidate
         \<or> (case candidate of [] \<Rightarrow> False | c # _ \<Rightarrow> is_digit c)
         \<or> startsWith candidate ''-''
         \<or> list_ex is_ws candidate
         \<or> CHR ''('' \<in> set candidate \<or> CHR '')'' \<in> set candidate
         \<or> (candidate \<noteq> [] \<and> last candidate = CHR '';'')
         \<or> is_size_literal candidate
         \<or> (candidate \<noteq> [] \<and> list_all is_digit candidate)))"

section \<open>Auxiliary notions for the statements\<close>

text \<open>The entries of a map body, and the text of an entry before its first colon.\<close>

definition entries :: "string \<Rightarrow> string list" where
  "entries content = map trim (split CHR '','' content)"

definition raw_key :: "string \<Rightarrow> string" where
  "raw_key entry = fst (key_value (split CHR '':'' entry))"

text \<open>One set of class names extends another: nothing is removed, and every new name is valid.\<close>

definition extends :: "string list \<Rightarrow> string list \<Rightarrow> bool" where
  "extends cls cls' = (set cls \<subseteq> set cls' \<and> (\<forall>x \<in> set cls'. x \<in> set cls \<or> isValidClassName x))"




text \<open>The declarations of a list of files, in the order the first loop meets them.\<close>

definition declarations :: "string list \<Rightarrow> (string \<times> string) list" where
  "declarations files = concat (map variable_matches files)"


text \<open>
  The key under which \<open>parseVariableContent\<close> stores an entry: the first part, trimmed,
  without its quotes.
\<close>

definition table_key :: "string \<Rightarrow> string" where
  "table_key entry = strip_quotes (fst (key_value (map trim (split CHR '':'' entry))))"









section \<open>Concrete stylesheets\<close>

text \<open>The three discovery paths in one file, with the invalid keys \<open>123\<close> and \<open>$bad\<close>.\<close>

definition mixed_input :: string where
  "mixed_input = ''$m: (123: a, $bad: b, ok: c) !default; @include style-class(x, m); .sel {''"

text \<open>The mixin cross-product example of section 8 of the specification.\<close>

definition cross_product_input :: string where
  \<open>cross_product_input =
     ''$color: (red: #f00, blue: #00f) !default; $scale: (1: 1x, 2: 2x) !default; @include ds4-scale-class("btn-", $color, $scale);''\<close>

text \<open>The same file with the map arguments written without the \<open>$\<close> sigil.\<close>

definition cross_product_bare_input :: string where
  \<open>cross_product_bare_input =
     ''$color: (red: #f00, blue: #00f) !default; $scale: (1: 1x, 2: 2x) !default; @include ds4-scale-class("btn-", color, scale);''\<close>

text \<open>A map whose only key is a quoted empty string.\<close>

definition empty_key_input :: string where
  \<open>empty_key_input = ''$m: ("": 4px) !default;''\<close>

text \<open>Two maps and a \<open>ds4-scale-class\<close> call that names them without sigil.\<close>

definition scale_class_input :: string where
  \<open>scale_class_input =
     ''$color: (red: x) !default; $scale: (sm: y) !default; @include ds4-scale-class("btn-", color, scale);''\<close>



text \<open>A map with a trailing comma, and the example of section 8 of the specification.\<close>

definition trailing_comma_input :: string where
  "trailing_comma_input = ''$m: (a: 1,) !default;''"

definition spacing_input :: string where
  "spacing_input = ''$spacing: (sm: 4px, lg: 16px) !default;''"

text \<open>The literal-selector example of section 8 of the specification.\<close>

definition selector_input :: string where
  "selector_input = ''.button-primary { color: red; }''"






section \<open>Properties of the regular-expression engine\<close>

text \<open>A match consumes a prefix of its input; a pattern that begins with a character
  consumes at least that character, so the scanning loops advance.\<close>

lemma re_match_length: "re_match rs b s = Some (ms, t) \<Longrightarrow> length t \<le> length s"
  by (induction rs b s arbitrary: ms t rule: re_match.induct)
     (fastforce split: if_splits option.splits)+

lemma re_match_Cls_shorter:
  "re_match (Cls c # r) b s = Some (ms, t) \<Longrightarrow> length t < length s"
  by (cases s) (auto split: if_splits dest: re_match_length)

lemma re_search_Cls_shorter:
  "re_search (Cls c # r) b s = Some (ms, t) \<Longrightarrow> length t < length s"
proof (induction s arbitrary: b)
  case Nil
  then show ?case by simp
next
  case (Cons x xs)
  then show ?case
    by (fastforce split: option.splits if_splits dest: re_match_length)
qed

lemma re_exec_all_Cls:
  "re_exec_all (Cls c # r) b s =
     (case re_search (Cls c # r) b s of
        None \<Rightarrow> []
      | Some (ms, t) \<Rightarrow> ms # re_exec_all (Cls c # r) False t)"
  by (subst re_exec_all.simps) (auto split: option.splits dest: re_search_Cls_shorter)

lemma scanners_advance:
  assumes "rs = variableRegex \<or> rs = mixinCallRegex \<or> rs = classRegex"
  shows "re_exec_all rs b s =
           (case re_search rs b s of
              None \<Rightarrow> []
            | Some (ms, t) \<Rightarrow> ms # re_exec_all rs False t)"
proof -
  have 1: "variableRegex = Cls (\<lambda>x. x = CHR ''$'') # tl variableRegex"
    by (simp add: variableRegex_def chr_def)
  have 2: "mixinCallRegex = Cls (\<lambda>x. x = CHR ''@'') # tl mixinCallRegex"
    by (simp add: mixinCallRegex_def lit_def chr_def)
  have 3: "classRegex = Cls (\<lambda>x. x = CHR ''.'') # tl classRegex"
    by (simp add: classRegex_def chr_def)
  from assms show ?thesis
  proof (elim disjE)
    assume r: "rs = variableRegex"
    show ?thesis unfolding r by (subst (1 2 3) 1) (rule re_exec_all_Cls)
  next
    assume r: "rs = mixinCallRegex"
    show ?thesis unfolding r by (subst (1 2 3) 2) (rule re_exec_all_Cls)
  next
    assume r: "rs = classRegex"
    show ?thesis unfolding r by (subst (1 2 3) 3) (rule re_exec_all_Cls)
  qed
qed

lemma re_match_lit:
  "re_match (lit w @ r) b s =
     (if startsWith s w then re_match r (b \<and> w = []) (drop (length w) s) else None)"
proof (induction w arbitrary: s b)
  case Nil
  then show ?case by (simp add: lit_def)
next
  case (Cons a w)
  then show ?case by (cases s) (auto simp: lit_def chr_def)
qed

section \<open>The validity filter, pattern by pattern\<close>

lemma re_search_Bol_False: "re_search (Bol # r) False s = None"
  by (induction s) auto

lemma re_test_Bol: "re_test (Bol # r) s = (re_match r True s \<noteq> None)"
  by (cases s) (auto simp: re_test_def re_search_Bol_False split: option.splits)

lemma re_match_chr: "(re_match [chr c] b s = None) = (\<not> startsWith s [c])"
  by (cases s) (auto simp: chr_def)

lemma re_match_Cls1: "(re_match [Cls c] b s = None) = (case s of [] \<Rightarrow> True | x # _ \<Rightarrow> \<not> c x)"
  by (cases s) auto

lemma re_search_Cls1: "(re_search [Cls c] b s = None) = (\<not> list_ex c s)"
  by (induction s arbitrary: b) (auto split: option.splits)

lemma re_search_Alt_chr:
  "(re_search [Alt [chr x] [chr y]] b s = None) = (x \<notin> set s \<and> y \<notin> set s)"
  by (induction s arbitrary: b) (auto simp: chr_def split: option.splits if_splits)

lemma re_search_chr_Eol:
  "(re_search [chr c, Eol] b s = None) = (s = [] \<or> last s \<noteq> c)"
  by (induction s arbitrary: b) (auto simp: chr_def split: option.splits if_splits)

lemma re_match_Star_Eol: "(re_match [Star c, Eol] b s = None) = (\<not> list_all c s)"
proof (induction s arbitrary: b)
  case Nil
  show ?case by simp
next
  case (Cons x xs)
  show ?case using Cons[of False] by (auto split: option.splits)
qed

lemma re_match_px: "(re_match (lit ''px'' @ [Eol]) b s = None) = (s \<noteq> ''px'')"
  unfolding re_match_lit 
  apply (cases s; simp)
  subgoal for a t by (cases t; auto)
  done

lemma re_match_rem: "(re_match (lit ''rem'' @ [Eol]) b s = None) = (s \<noteq> ''rem'')"
  unfolding re_match_lit 
  apply (cases s; simp)
  subgoal for a t apply (cases t; simp)
    subgoal for a' t' by (cases t'; auto)
    done
  done

lemma re_match_unit:
  "(re_match [Alt (lit ''px'') (lit ''rem''), Eol] b s = None) = (s \<noteq> ''px'' \<and> s \<noteq> ''rem'')"
  using re_match_px[of b s] re_match_rem[of b s] by (auto split: option.splits)

lemma is_digit_not_unit: "is_digit x \<Longrightarrow> x \<noteq> CHR ''p'' \<and> x \<noteq> CHR ''r''"
  by (auto simp: is_digit_def code_def)

lemma re_match_Star_unit:
  "(re_match [Star is_digit, Alt (lit ''px'') (lit ''rem''), Eol] b s = None)
     = (dropWhile is_digit s \<noteq> ''px'' \<and> dropWhile is_digit s \<noteq> ''rem'')"
proof (induction s arbitrary: b)
  case Nil
  show ?case using re_match_unit[of b "[]"] by simp
next
  case (Cons x xs)
  show ?case
  proof (cases "is_digit x")
    case True
    then have "re_match [Alt (lit ''px'') (lit ''rem''), Eol] b (x # xs) = None"
      using is_digit_not_unit[of x] unfolding re_match_unit by auto
    then show ?thesis using True Cons[of False] by (auto split: option.splits)
  next
    case False
    then show ?thesis using re_match_unit[of b "x # xs"] by simp
  qed
qed

lemma isValidClassName_iff:
  "isValidClassName s =
     (\<not> (startsWith s ''$'' \<or> startsWith s ''#'' \<or> CHR ''$'' \<in> set s \<or> CHR ''%'' \<in> set s
         \<or> (case s of [] \<Rightarrow> False | c # _ \<Rightarrow> is_digit c) \<or> startsWith s ''-''
         \<or> list_ex is_ws s \<or> CHR ''('' \<in> set s \<or> CHR '')'' \<in> set s
         \<or> (s \<noteq> [] \<and> last s = CHR '';'') \<or> is_size_literal s
         \<or> (s \<noteq> [] \<and> list_all is_digit s)))"
proof -
  have p9: "re_test ([Bol] @ one_or_more is_digit @ [Alt (lit ''px'') (lit ''rem''), Eol]) s = is_size_literal s"
    using re_match_Star_unit[of False "tl s"]
    by (cases s) (auto simp: re_test_Bol one_or_more_def is_size_literal_def simp del: not_None_eq)
  have p10: "re_test ([Bol] @ one_or_more is_digit @ [Eol]) s = (s \<noteq> [] \<and> list_all is_digit s)"
    using re_match_Star_Eol[of is_digit False "tl s"]
    by (cases s) (auto simp: re_test_Bol one_or_more_def simp del: not_None_eq)
  have p7: "re_test [Cls (\<lambda>c. c = CHR ''('' \<or> c = CHR '')'')] s = (CHR ''('' \<in> set s \<or> CHR '')'' \<in> set s)"
    by (auto simp: re_test_def re_search_Cls1 list_ex_iff simp del: not_None_eq)
  have p1: "re_test [Bol, chr c] s = startsWith s [c]" for c
    by (simp add: re_test_Bol re_match_chr del: not_None_eq)
  have p4: "re_test [Bol, Cls is_digit] s = (case s of [] \<Rightarrow> False | c # _ \<Rightarrow> is_digit c)"
    by (simp add: re_test_Bol re_match_Cls1 del: not_None_eq split: list.splits)
  have p3: "re_test [Alt [chr CHR ''$''] [chr CHR ''%'']] s = (CHR ''$'' \<in> set s \<or> CHR ''%'' \<in> set s)"
    by (simp add: re_test_def re_search_Alt_chr del: not_None_eq)
  have p6: "re_test [Cls is_ws] s = list_ex is_ws s"
    by (simp add: re_test_def re_search_Cls1 del: not_None_eq)
  have p8: "re_test [chr CHR '';'', Eol] s = (s \<noteq> [] \<and> last s = CHR '';'')"
    by (simp add: re_test_def re_search_chr_Eol del: not_None_eq)
  show ?thesis
    unfolding isValidClassName_def invalidPatterns_def list_ex_Cons_iff list_ex_Nil_iff p1 p3 p4 p6 p7 p8 p9 p10
    by simp
qed

section \<open>What each step adds to the set of class names\<close>

lemma set_set_add: "set (set_add x xs) = insert x (set xs)"
  by (auto simp: set_add_def)

lemma set_fold_add:
  "set (fold (\<lambda>k c. if G k then set_add (f k) c else c) ks cls) = set cls \<union> f ` {k \<in> set ks. G k}"
  by (induction ks arbitrary: cls) (auto simp: set_set_add)

lemma set_addClassesFromVariable:
  "set (addClassesFromVariable content cls) =
     set cls \<union> (\<lambda>e. trim (strip_quotes (raw_key e)))
                 ` {e \<in> set (entries content). raw_key e \<noteq> [] \<and> isValidClassName (trim (strip_quotes (raw_key e)))}"
proof -
  have "addClassesFromVariable content cls =
      fold (\<lambda>e c. if raw_key e \<noteq> [] \<and> isValidClassName (trim (strip_quotes (raw_key e)))
                    then set_add (trim (strip_quotes (raw_key e))) c else c) (entries content) cls"
    unfolding addClassesFromVariable_def entries_def raw_key_def Let_def
    by (rule arg_cong[where f="\<lambda>f. fold f _ _"]) (auto simp: fun_eq_iff split: prod.splits)
  then show ?thesis by (simp only: set_fold_add)
qed

lemma set_add_keys:
  "set (add_keys mp cls) = set cls \<union> {k \<in> set (object_keys mp). isValidClassName k}"
  unfolding add_keys_def using set_fold_add[of isValidClassName "\<lambda>k. k" "object_keys mp" cls]
  by auto

lemma set_add_cross_inner:
  "set (fold (\<lambda>scaleKey classNames.
                     (let className = name @ key @ ''-'' @ scaleKey
                      in if isValidClassName className then set_add className classNames
                         else classNames)) ks cls)
   = set cls \<union> {name @ key @ ''-'' @ s | s. s \<in> set ks \<and> isValidClassName (name @ key @ ''-'' @ s)}"
  unfolding Let_def
  using set_fold_add[of "\<lambda>s. isValidClassName (name @ key @ ''-'' @ s)" "\<lambda>s. name @ key @ ''-'' @ s" ks cls]
  by auto

lemma set_add_cross:
  "set (add_cross name mp scales cls) =
     set cls \<union> {name @ k @ ''-'' @ s | k s. k \<in> set (object_keys mp) \<and> s \<in> set (object_keys scales)
                    \<and> isValidClassName (name @ k @ ''-'' @ s)}"
proof -
  have "set (fold (\<lambda>key classNames.
             fold (\<lambda>scaleKey classNames.
                     (let className = name @ key @ ''-'' @ scaleKey
                      in if isValidClassName className then set_add className classNames
                         else classNames))
                  ss classNames) ks cls)
      = set cls \<union> {name @ k @ ''-'' @ s | k s. k \<in> set ks \<and> s \<in> set ss
                    \<and> isValidClassName (name @ k @ ''-'' @ s)}" for ks ss
  proof (induction ks arbitrary: cls)
    case Nil
    show ?case by simp
  next
    case (Cons k ks)
    show ?case
      apply (simp only: fold_simps Cons set_add_cross_inner)
      by auto
  qed
  then show ?thesis unfolding add_cross_def .
qed

lemma extends_refl: "extends cls cls"
  by (simp add: extends_def)

lemma extends_trans: "extends a b \<Longrightarrow> extends b c \<Longrightarrow> extends a c"
  by (auto simp: extends_def)

lemma extends_addClassesFromVariable: "extends cls (addClassesFromVariable content cls)"
  unfolding extends_def set_addClassesFromVariable by auto

lemma extends_add_keys: "extends cls (add_keys mp cls)"
  unfolding extends_def set_add_keys by auto

lemma extends_add_cross: "extends cls (add_cross name mp scales cls)"
  unfolding extends_def set_add_cross by auto

lemma extends_processMixinCall: "extends cls (processMixinCall mixinName mixinArgs variables cls)"
  unfolding processMixinCall_def Let_def
  by (auto simp: extends_refl extends_add_keys extends_add_cross split: list.splits)

lemma extends_fold:
  "(\<And>k c. extends c (f k c)) \<Longrightarrow> extends cls (fold f ks cls)"
proof (induction ks arbitrary: cls)
  case Nil
  show ?case by (simp add: extends_refl)
next
  case (Cons k ks)
  show ?case using Cons.prems Cons.IH[of "f k cls"] extends_trans[of cls "f k cls"] by simp
qed

lemma extends_scan_mixins: "extends cls (scan_mixins content variables cls)"
  unfolding scan_mixins_def
  by (rule extends_fold) (auto simp: extends_processMixinCall)

lemma set_scan_classes:
  "set (scan_classes content cls) = set cls \<union> {n \<in> set (class_matches content). isValidClassName n}"
  unfolding scan_classes_def using set_fold_add[of isValidClassName "\<lambda>k. k" "class_matches content" cls]
  by auto

lemma extends_scan_classes: "extends cls (scan_classes content cls)"
  unfolding extends_def set_scan_classes by auto

lemma extends_scan_variables_aux:
  "extends (snd st) (snd (fold (\<lambda>(variableName, variableContent) (variables, classNames).
             (variables_set variables variableName (parseVariableContent variableContent),
              addClassesFromVariable variableContent classNames)) ds st))"
proof (induction ds arbitrary: st)
  case Nil
  show ?case by (simp add: extends_refl)
next
  case (Cons d ds)
  obtain n body where d: "d = (n, body)" by (cases d)
  obtain vs cls where st: "st = (vs, cls)" by (cases st)
  show ?case
    using Cons[of "(variables_set vs n (parseVariableContent body), addClassesFromVariable body cls)"]
      extends_addClassesFromVariable[of cls body]
    by (auto simp: d st intro: extends_trans)
qed

lemma extends_scan_variables: "extends (snd st) (snd (scan_variables content st))"
  unfolding scan_variables_def by (rule extends_scan_variables_aux)

lemma extends_parse_file: "extends (snd st) (snd (parse_file content st))"
proof -
  obtain vs cls where sv: "scan_variables content st = (vs, cls)" by (cases "scan_variables content st")
  have 1: "extends (snd st) cls" using extends_scan_variables[of st content] sv by simp
  have 2: "extends cls (scan_mixins content vs cls)" by (rule extends_scan_mixins)
  have 3: "extends (scan_mixins content vs cls) (scan_classes content (scan_mixins content vs cls))"
    by (rule extends_scan_classes)
  show ?thesis unfolding parse_file_def sv using 1 2 3 by (auto intro: extends_trans)
qed

lemma extends_parse_files: "extends (snd st) (snd (fold parse_file files st))"
proof (induction files arbitrary: st)
  case Nil
  show ?case by (simp add: extends_refl)
next
  case (Cons f fs)
  show ?case using Cons[of "parse_file f st"] extends_parse_file[of st f]
    by (auto intro: extends_trans)
qed

lemma parseScssFiles_valid: "x \<in> set (parseScssFiles files) \<Longrightarrow> isValidClassName x"
  using extends_parse_files[of "(empty_variables, [])" files]
  by (auto simp: parseScssFiles_def extends_def)

section \<open>The symbol table across files\<close>








section \<open>Keys of a declaration\<close>

lemma is_ws_not_quote: "is_ws c \<Longrightarrow> \<not> is_quote c"
  by (auto simp: is_ws_def is_quote_def)

lemma strip_quotes_ws: "list_all is_ws a \<Longrightarrow> strip_quotes a = a"
  by (induction a) (auto simp: strip_quotes_def is_ws_not_quote)

lemma trim_decomp: "\<exists>a b. s = a @ trim s @ b \<and> list_all is_ws a \<and> list_all is_ws b"
proof -
  define a where "a = takeWhile is_ws s"
  define s' where "s' = dropWhile is_ws s"
  define b where "b = rev (takeWhile is_ws (rev s'))"
  have 1: "s = a @ s'" by (simp add: a_def s'_def)
  have "s' = rev (dropWhile is_ws (rev s')) @ rev (takeWhile is_ws (rev s'))"
    by (metis rev_append rev_rev_ident takeWhile_dropWhile_id)
  then have 2: "s' = trim s @ b" unfolding trim_def b_def s'_def .
  have 3: "list_all is_ws a" by (simp add: a_def list_all_iff) (meson set_takeWhileD)
  have 4: "list_all is_ws b" by (simp add: b_def list_all_iff) (meson set_takeWhileD)
  show ?thesis using 1 2 3 4 by auto
qed

lemma dropWhile_all: "list_all P a \<Longrightarrow> dropWhile P (a @ r) = dropWhile P r"
  by (induction a) auto

lemma trim_sandwich:
  assumes "list_all is_ws a" "list_all is_ws b" "\<not> list_ex is_ws m"
  shows "trim (a @ m @ b) = m"
proof (cases m rule: rev_cases)
  case Nil
  have "dropWhile is_ws (a @ b) = []"
    using dropWhile_all[OF assms(1), of b] dropWhile_all[OF assms(2), of "[]"] by simp
  then have "trim (a @ b) = []" by (simp only: trim_def rev.simps dropWhile.simps)
  then show ?thesis by (simp add: Nil)
next
  case (snoc m' y)
  have nws: "\<forall>x \<in> set m. \<not> is_ws x" using assms(3) by (auto simp: list_ex_iff)
  have 1: "dropWhile is_ws (a @ m @ b) = m @ b"
  proof (cases m)
    case Nil
    then show ?thesis using snoc by simp
  next
    case (Cons x xs)
    then have "\<not> is_ws x" using nws by simp
    then show ?thesis using assms(1) by (simp add: Cons dropWhile_all)
  qed
  have "\<not> is_ws y" using nws snoc by simp
  then have 2: "dropWhile is_ws (rev b @ y # rev m') = y # rev m'"
    using assms(2) dropWhile_all[of is_ws "rev b" "y # rev m'"] by (simp add: list_all_iff)
  show ?thesis unfolding trim_def 1 by (simp add: snoc 2)
qed

lemma trim_strip_quotes_commute:
  assumes "\<not> list_ex is_ws (strip_quotes (trim r))"
  shows "trim (strip_quotes r) = strip_quotes (trim r)"
proof -
  obtain a b where d: "r = a @ trim r @ b" "list_all is_ws a" "list_all is_ws b"
    using trim_decomp[of r] by blast
  have "strip_quotes r = strip_quotes a @ strip_quotes (trim r) @ strip_quotes b"
    by (subst d(1)) (simp add: strip_quotes_def)
  then have "strip_quotes r = a @ strip_quotes (trim r) @ b"
    using d(2,3) by (simp add: strip_quotes_ws)
  then show ?thesis using trim_sandwich[OF d(2,3) assms] by simp
qed

lemma split_not_Nil: "split sep s \<noteq> []"
  by (induction s) (auto split: list.splits)

lemma table_key_raw_key: "table_key e = strip_quotes (trim (raw_key e))"
proof -
  obtain p ps where "split CHR '':'' e = p # ps"
    using split_not_Nil[of "CHR '':''" e] by (cases "split CHR '':'' e") auto
  then show ?thesis by (cases ps) (auto simp: table_key_def raw_key_def)
qed

lemma isValidClassName_no_ws: "isValidClassName s \<Longrightarrow> \<not> list_ex is_ws s"
  unfolding isValidClassName_iff by simp

lemma direct_key_in_addClassesFromVariable:
  assumes "e \<in> set (entries body)" "raw_key e \<noteq> []" "isValidClassName (table_key e)"
  shows "table_key e \<in> set (addClassesFromVariable body cls)"
proof -
  have eq: "trim (strip_quotes (raw_key e)) = table_key e"
    using trim_strip_quotes_commute[of "raw_key e"] isValidClassName_no_ws[OF assms(3)]
    by (simp add: table_key_raw_key)
  show ?thesis
    unfolding set_addClassesFromVariable using assms eq by force
qed

lemma in_scan_variables_aux:
  assumes "(n, body) \<in> set ds" "\<And>cls. x \<in> set (addClassesFromVariable body cls)"
  shows "x \<in> set (snd (fold (\<lambda>(variableName, variableContent) (variables, classNames).
             (variables_set variables variableName (parseVariableContent variableContent),
              addClassesFromVariable variableContent classNames)) ds st))"
  using assms(1)
proof (induction ds arbitrary: st)
  case Nil
  then show ?case by simp
next
  case (Cons d ds)
  obtain k b where d: "d = (k, b)" by (cases d)
  obtain vs cls where st: "st = (vs, cls)" by (cases st)
  let ?st' = "(variables_set vs k (parseVariableContent b), addClassesFromVariable b cls)"
  show ?case
  proof (cases "d = (n, body)")
    case True
    have "x \<in> set (snd ?st')" using True d assms(2) by simp
    then show ?thesis
      using extends_scan_variables_aux[of ?st' ds] by (auto simp: d st extends_def)
  next
    case False
    then have "(n, body) \<in> set ds" using Cons.prems by simp
    then show ?thesis using Cons.IH[of ?st'] by (simp add: d st)
  qed
qed

lemma in_parse_files:
  assumes "content \<in> set files" "\<And>st. x \<in> set (snd (parse_file content st))"
  shows "x \<in> set (snd (fold parse_file files st0))"
  using assms(1)
proof (induction files arbitrary: st0)
  case Nil
  then show ?case by simp
next
  case (Cons f fs)
  show ?case
  proof (cases "f = content")
    case True
    have "x \<in> set (snd (parse_file f st0))" using True assms(2) by simp
    then show ?thesis using extends_parse_files[of "parse_file f st0" fs]
      by (auto simp: extends_def)
  next
    case False
    then show ?thesis using Cons by simp
  qed
qed

lemma declared_key_in_output:
  assumes "content \<in> set files" "(n, body) \<in> set (variable_matches content)"
    "e \<in> set (entries body)" "raw_key e \<noteq> []" "isValidClassName (table_key e)"
  shows "table_key e \<in> set (parseScssFiles files)"
proof -
  have "table_key e \<in> set (snd (parse_file content st))" for st
  proof -
    have "table_key e \<in> set (snd (scan_variables content st))"
      unfolding scan_variables_def
      by (rule in_scan_variables_aux[OF assms(2)]) (rule direct_key_in_addClassesFromVariable[OF assms(3-5)])
    moreover obtain vs cls where sv: "scan_variables content st = (vs, cls)"
      by (cases "scan_variables content st")
    moreover have "extends cls (scan_classes content (scan_mixins content vs cls))"
      using extends_scan_mixins extends_scan_classes extends_trans by blast
    ultimately show ?thesis by (auto simp: parse_file_def extends_def)
  qed
  then show ?thesis unfolding parseScssFiles_def by (rule in_parse_files[OF assms(1)])
qed

lemma keys_obj_put:
  "map fst (obj_put k v ps) = (if k \<in> fst ` set ps then map fst ps else map fst ps @ [k])"
  by (induction ps) (auto simp: image_iff, force)

lemma fst_obj_put: "set (map fst (obj_put k v ps)) = insert k (set (map fst ps))"
  unfolding keys_obj_put by auto

lemma keys_parseVariableContent_aux:
  "set (map fst (fold (\<lambda>entry result.
                 (case key_value (map trim (split CHR '':'' entry)) of
                    (key, val) \<Rightarrow> obj_set result (strip_quotes key) val)) es obj))
     = set (map fst obj) \<union> (table_key ` set es - {''__proto__''})"
proof (induction es arbitrary: obj)
  case Nil
  show ?case by simp
next
  case (Cons e es)
  obtain key val where kv: "key_value (map trim (split CHR '':'' e)) = (key, val)"
    by (cases "key_value (map trim (split CHR '':'' e))")
  have tk: "table_key e = strip_quotes key" by (simp add: table_key_def kv)
  have step: "set (map fst (obj_set obj (strip_quotes key) val))
                = set (map fst obj) \<union> ({table_key e} - {''__proto__''})"
    unfolding obj_set_def tk by (auto simp: fst_obj_put simp del: set_map)
  show ?case
    unfolding fold_simps o_apply kv prod.case Cons step by auto
qed

lemma keys_parseVariableContent:
  "set (map fst (parseVariableContent body)) = table_key ` set (entries body) - {''__proto__''}"
  unfolding parseVariableContent_def Let_def entries_def[symmetric]
  using keys_parseVariableContent_aux[of "entries body" "[]"] by simp

section \<open>Matches of the scanners\<close>

lemma re_match_Cls_Some:
  "(re_match (Cls c # r) b s = Some z) = (\<exists>x xs. s = x # xs \<and> c x \<and> re_match r False xs = Some z)"
  by (cases s) auto

lemma re_match_chr_Some:
  "(re_match (chr c # r) b s = Some z) = (\<exists>xs. s = c # xs \<and> re_match r False xs = Some z)"
  unfolding chr_def re_match_Cls_Some by auto

lemma re_match_Mark_Some:
  "(re_match (Mark # r) b s = Some (ms, t)) = (\<exists>ms'. ms = s # ms' \<and> re_match r b s = Some (ms', t))"
  by (auto split: option.splits)

lemma re_match_Star_SomeD:
  "re_match (Star c # r) b s = Some z \<Longrightarrow>
     \<exists>u v b'. s = u @ v \<and> list_all c u \<and> re_match r b' v = Some z"
proof (induction s arbitrary: b)
  case Nil
  then show ?case by auto
next
  case (Cons x xs)
  show ?case
  proof (cases "c x \<and> re_match (Star c # r) False xs = Some z")
    case True
    then obtain u v b' where "xs = u @ v" "list_all c u" "re_match r b' v = Some z"
      using Cons.IH by blast
    then have "x # xs = (x # u) @ v \<and> list_all c (x # u) \<and> re_match r b' v = Some z"
      using True by simp
    then show ?thesis by blast
  next
    case False
    then have "re_match r b (x # xs) = Some z"
      using Cons.prems by (auto split: if_splits option.splits)
    then have "x # xs = [] @ (x # xs) \<and> list_all c [] \<and> re_match r b (x # xs) = Some z"
      by simp
    then show ?thesis by blast
  qed
qed


text \<open>A greedy star takes a whole run when what follows cannot begin inside the class.\<close>

lemma re_match_Star_run:
  assumes "list_all c u" and "\<And>b'. re_match r b' v = Some z"
    and "case v of [] \<Rightarrow> True | y # _ \<Rightarrow> \<not> c y"
  shows "re_match (Star c # r) b (u @ v) = Some z"
  using assms(1)
proof (induction u arbitrary: b)
  case Nil
  show ?case using assms(2,3) by (cases v) auto
next
  case (Cons x u)
  then show ?case by simp
qed


text \<open>
  If the pattern matches at some position, the search from the left stops there or at
  an earlier position.
\<close>

lemma re_search_leftmost:
  assumes "\<And>b'. re_match rs b' q = Some z"
  shows "re_search rs b (p @ q) = Some z
         \<or> (\<exists>p1 p2 b' z'. p = p1 @ p2 \<and> p2 \<noteq> [] \<and> re_match rs b' (p2 @ q) = Some z'
               \<and> re_search rs b (p @ q) = Some z')"
proof (induction p arbitrary: b)
  case Nil
  show ?case using assms by (cases q) auto
next
  case (Cons x p)
  show ?case
  proof (cases "re_match rs b (x # p @ q)")
    case (Some z')
    show ?thesis
      by (rule disjI2, rule exI[of _ "[]"], rule exI[of _ "x # p"], rule exI[of _ b],
          rule exI[of _ z']) (simp add: Some)
  next
    case None
    then have eq: "re_search rs b ((x # p) @ q) = re_search rs False (p @ q)" by simp
    from Cons[of False] show ?thesis
    proof
      assume "re_search rs False (p @ q) = Some z"
      then show ?thesis unfolding eq by (rule disjI1)
    next
      assume "\<exists>p1 p2 b' z'. p = p1 @ p2 \<and> p2 \<noteq> [] \<and> re_match rs b' (p2 @ q) = Some z'
               \<and> re_search rs False (p @ q) = Some z'"
      then obtain p1 p2 b' z' where h: "p = p1 @ p2" "p2 \<noteq> []" "re_match rs b' (p2 @ q) = Some z'"
         "re_search rs False (p @ q) = Some z'" by blast
      show ?thesis unfolding eq using h
        by (intro disjI2) (rule exI[of _ "x # p1"], rule exI[of _ p2], rule exI[of _ b'],
            rule exI[of _ z'], simp)
    qed
  qed
qed



lemma is_ident_not_special: "is_ident c \<Longrightarrow> c \<noteq> CHR ''.'' \<and> c \<noteq> CHR ''{''"
  by (auto simp: is_ident_def is_digit_def code_def)

lemma is_ws_not_special: "is_ws c \<Longrightarrow> c \<noteq> CHR ''.'' \<and> c \<noteq> CHR ''{'' \<and> \<not> is_ident c"
  by (auto simp: is_ident_def is_ws_def is_digit_def code_def)

lemma re_match_chr_Cons:
  "re_match (chr c # r) b (x # xs) = (if x = c then re_match r False xs else None)"
  by (simp add: chr_def)

text \<open>The shape of a match of \<open>classRegex\<close>, and its marks.\<close>

lemma classRegex_match_shape:
  assumes "re_match classRegex b s = Some (ms, t)"
  shows "\<exists>i w. s = CHR ''.'' # i @ w @ CHR ''{'' # t \<and> list_all is_ident i \<and> list_all is_ws w"
proof -
  from assms obtain s1 ms1 where s: "s = CHR ''.'' # s1"
    and 1: "re_match ([Cls is_ident, Star is_ident, Mark, Star is_ws, chr CHR ''{'']) False s1 = Some (ms1, t)"
    unfolding classRegex_def one_or_more_def
    by (auto simp: re_match_chr_Some split: option.splits)
  from 1 obtain x s2 where s1: "s1 = x # s2" and x: "is_ident x"
    and 2: "re_match ([Star is_ident, Mark, Star is_ws, chr CHR ''{'']) False s2 = Some (ms1, t)"
    unfolding re_match_Cls_Some by auto
  from re_match_Star_SomeD[OF 2] obtain u v b1 where s2: "s2 = u @ v" and u: "list_all is_ident u"
    and 3: "re_match ([Mark, Star is_ws, chr CHR ''{'']) b1 v = Some (ms1, t)" by blast
  from 3 obtain ms2 where 4: "re_match ([Star is_ws, chr CHR ''{'']) b1 v = Some (ms2, t)"
    by (auto split: option.splits)
  from re_match_Star_SomeD[OF 4] obtain w v' b2 where v: "v = w @ v'" and w: "list_all is_ws w"
    and 5: "re_match [chr CHR ''{''] b2 v' = Some (ms2, t)" by blast
  from 5 have v': "v' = CHR ''{'' # t" unfolding re_match_chr_Some by auto
  have "s = CHR ''.'' # (x # u) @ w @ CHR ''{'' # t \<and> list_all is_ident (x # u) \<and> list_all is_ws w"
    using s s1 s2 v v' x u w by simp
  then show ?thesis by (intro exI)
qed

lemma classRegex_match_intro:
  assumes "i \<noteq> []" "list_all is_ident i" "list_all is_ws w"
  shows "re_match classRegex b (CHR ''.'' # i @ w @ CHR ''{'' # t)
           = Some ([i @ w @ CHR ''{'' # t, w @ CHR ''{'' # t], t)"
proof -
  obtain x u where i: "i = x # u" using assms(1) by (cases i) auto
  have x: "is_ident x" and u: "list_all is_ident u" using assms(2) i by auto
  have 5: "re_match [chr CHR ''{''] b' (CHR ''{'' # t) = Some ([], t)" for b'
    by (simp add: chr_def)
  have 4: "re_match [Star is_ws, chr CHR ''{''] b' (w @ CHR ''{'' # t) = Some ([], t)" for b'
    by (rule re_match_Star_run[OF assms(3) 5]) (simp add: is_ws_def code_def)
  have 3: "re_match [Mark, Star is_ws, chr CHR ''{''] b' (w @ CHR ''{'' # t)
             = Some ([w @ CHR ''{'' # t], t)" for b'
    by (simp add: 4)
  have nid: "case w @ CHR ''{'' # t of [] \<Rightarrow> True | y # _ \<Rightarrow> \<not> is_ident y"
    using assms(3) is_ws_not_special by (cases w) (auto simp: is_ident_def is_digit_def code_def)
  have 2: "re_match [Star is_ident, Mark, Star is_ws, chr CHR ''{''] b' (u @ w @ CHR ''{'' # t)
             = Some ([w @ CHR ''{'' # t], t)" for b'
    by (rule re_match_Star_run[OF u 3 nid])
  show ?thesis
    unfolding classRegex_def one_or_more_def i using x by (simp add: re_match_chr_Cons 2)
qed

lemma between_append: "between (u @ v) v = u"
  by (simp add: between_def)

lemma re_exec_all_classRegex:
  "re_exec_all classRegex b s =
     (case re_search classRegex b s of
        None \<Rightarrow> []
      | Some (ms, t) \<Rightarrow> ms # re_exec_all classRegex False t)"
  by (rule scanners_advance) simp

text \<open>
  A match that begins before an occurrence of a selector ends before it: after its
  first character a match holds no dot.
\<close>

lemma classRegex_match_before:
  assumes "re_match classRegex b (p2 @ CHR ''.'' # r) = Some (ms, t)" and "p2 \<noteq> []"
  shows "\<exists>p3. t = p3 @ CHR ''.'' # r \<and> length p3 < length p2"
proof -
  obtain i w where sh: "p2 @ CHR ''.'' # r = CHR ''.'' # i @ w @ CHR ''{'' # t"
      and i: "list_all is_ident i" and w: "list_all is_ws w"
    using classRegex_match_shape[OF assms(1)] by blast
  define m where "m = i @ w @ [CHR ''{'']"
  have nodot: "CHR ''.'' \<notin> set m"
    using i w is_ident_not_special is_ws_not_special by (auto simp: m_def list_all_iff)
  obtain p2' where p2: "p2 = CHR ''.'' # p2'"
    using sh assms(2) by (cases p2) auto
  have eq: "p2' @ CHR ''.'' # r = m @ t" using sh p2 by (simp add: m_def)
  then consider us where "p2' = m @ us" "us @ CHR ''.'' # r = t"
    | us where "p2' @ us = m" "CHR ''.'' # r = us @ t"
    unfolding append_eq_append_conv2 by blast
  then show ?thesis
  proof cases
    case 1
    have "t = us @ CHR ''.'' # r \<and> length us < length p2" using 1 p2 by (simp add: m_def)
    then show ?thesis by (intro exI)
  next
    case 2
    show ?thesis
    proof (cases us)
      case Nil
      then have "t = [] @ CHR ''.'' # r \<and> length ([]::string) < length p2" using 2 p2 by simp
      then show ?thesis by (intro exI)
    next
      case (Cons y ys)
      then have "y = CHR ''.''" using 2(2) by simp
      then have "CHR ''.'' \<in> set m" using 2(1) Cons by auto
      then show ?thesis using nodot by simp
    qed
  qed
qed

lemma class_occurrence_found:
  assumes "i \<noteq> []" "list_all is_ident i" "list_all is_ws w"
  shows "i \<in> set (map group1 (re_exec_all classRegex b (pre @ CHR ''.'' # i @ w @ CHR ''{'' # post)))"
proof (induction "length pre" arbitrary: pre b rule: less_induct)
  case less
  let ?r = "i @ w @ CHR ''{'' # post"
  let ?z = "([i @ w @ CHR ''{'' # post, w @ CHR ''{'' # post], post)"
  have m: "re_match classRegex b' (CHR ''.'' # ?r) = Some ?z" for b'
    by (rule classRegex_match_intro[OF assms])
  have g: "group1 (fst ?z) = i" using between_append[of i "w @ CHR ''{'' # post"] by simp
  from re_search_leftmost[of classRegex "CHR ''.'' # ?r" ?z b pre, OF m]
  show ?case
  proof
    assume "re_search classRegex b (pre @ CHR ''.'' # ?r) = Some ?z"
    then have "re_exec_all classRegex b (pre @ CHR ''.'' # ?r)
                 = fst ?z # re_exec_all classRegex False post"
      by (subst re_exec_all_classRegex) simp
    then show ?thesis using g by simp
  next
    assume "\<exists>p1 p2 b' z'. pre = p1 @ p2 \<and> p2 \<noteq> []
              \<and> re_match classRegex b' (p2 @ CHR ''.'' # ?r) = Some z'
              \<and> re_search classRegex b (pre @ CHR ''.'' # ?r) = Some z'"
    then obtain p1 p2 b' ms' t' where h: "pre = p1 @ p2" "p2 \<noteq> []"
        "re_match classRegex b' (p2 @ CHR ''.'' # ?r) = Some (ms', t')"
        "re_search classRegex b (pre @ CHR ''.'' # ?r) = Some (ms', t')"
      by (metis surj_pair)
    obtain p3 where p3: "t' = p3 @ CHR ''.'' # ?r" "length p3 < length p2"
      using classRegex_match_before[OF h(3) h(2)] by blast
    have "length p3 < length pre" using p3(2) h(1) by simp
    then have ih: "i \<in> set (map group1 (re_exec_all classRegex False (p3 @ CHR ''.'' # ?r)))"
      by (rule less)
    have "re_exec_all classRegex b (pre @ CHR ''.'' # ?r)
            = ms' # re_exec_all classRegex False t'"
      by (subst re_exec_all_classRegex) (simp add: h(4))
    then show ?thesis using ih p3(1) by simp
  qed
qed

lemma in_parse_file_classes:
  assumes "name \<in> set (class_matches content)" "isValidClassName name"
  shows "name \<in> set (snd (parse_file content st))"
  unfolding parse_file_def using assms by (auto simp: set_scan_classes split: prod.splits)











section \<open>What a mixin invocation adds\<close>










lemma declarations_append: "declarations (xs @ ys) = declarations xs @ declarations ys"
  by (simp add: declarations_def)


lemma set_insert_index: "set (insert_index k xs) = insert k (set xs)"
  by (induction xs) auto

lemma set_ordered_keys: "set (ordered_keys ks) = set ks"
proof -
  have "set (sort_indices xs) = set xs" for xs
    unfolding sort_indices_def by (induction xs) (auto simp: set_insert_index)
  then show ?thesis unfolding ordered_keys_def by auto
qed







section \<open>The claims\<close>

text \<open>
  C1. Every string in the output of \<open>parseScssFiles\<close> passes the validity filter,
  whichever of the three loops produced it: it does not begin with a digit, holds no
  \<open>$\<close> or \<open>%\<close> and no whitespace, and is neither \<open>123\<close> nor \<open>$bad\<close>.
\<close>

theorem output_passes_validity_filter:
  "\<forall>s \<in> set (parseScssFiles files).
     isValidClassName s \<and> (case s of [] \<Rightarrow> True | c # _ \<Rightarrow> \<not> is_digit c)
     \<and> CHR ''$'' \<notin> set s \<and> CHR ''%'' \<notin> set s \<and> \<not> list_ex is_ws s
     \<and> s \<noteq> ''123'' \<and> s \<noteq> ''$bad''"
proof
  fix s
  assume "s \<in> set (parseScssFiles files)"
  then have v: "isValidClassName s" by (rule parseScssFiles_valid)
  have d: "is_digit CHR ''1''" by (simp add: is_digit_def code_def)
  show "isValidClassName s \<and> (case s of [] \<Rightarrow> True | c # _ \<Rightarrow> \<not> is_digit c)
     \<and> CHR ''$'' \<notin> set s \<and> CHR ''%'' \<notin> set s \<and> \<not> list_ex is_ws s
     \<and> s \<noteq> ''123'' \<and> s \<noteq> ''$bad''"
    using v d unfolding isValidClassName_iff by (auto split: list.splits)
qed

theorem output_passes_validity_filter_witness:
  "''ok'' \<in> set (parseScssFiles [mixed_input]) \<and> ''sel'' \<in> set (parseScssFiles [mixed_input])
   \<and> isValidClassName ''ok'' \<and> isValidClassName ''sel''
   \<and> ''123'' \<notin> set (parseScssFiles [mixed_input]) \<and> ''$bad'' \<notin> set (parseScssFiles [mixed_input])"
proof -
  have out: "parseScssFiles [mixed_input] = [''ok'', ''sel'']"
    unfolding mixed_input_def by code_simp
  show ?thesis
    using output_passes_validity_filter[of "[mixed_input]"] unfolding out by auto
qed

text \<open>
  C2. \<open>isValidClassName\<close> rejects a candidate exactly when one of the conditions listed
  in section 4.1 of the specification holds, and accepts it otherwise.
\<close>

theorem isValidClassName_is_spec: "isValidClassName candidate = spec_is_valid candidate"
  unfolding spec_is_valid_def by (rule isValidClassName_iff)

theorem isValidClassName_is_spec_witness:
  "isValidClassName ''btn-red-1'' \<and> \<not> isValidClassName ''12px'' \<and> \<not> isValidClassName ''a b''"
  unfolding isValidClassName_is_spec by code_simp

text \<open>
  C3. On the cross-product example the source returns \<open>red\<close> and \<open>blue\<close> only: the
  arguments \<open>$color\<close> and \<open>$scale\<close> keep their sigil, the maps are stored under \<open>color\<close>
  and \<open>scale\<close>, and the lookup finds nothing. None of the four \<open>btn-\<close> names is produced.
\<close>

theorem cross_product_example_output:
  "parseScssFiles [cross_product_input] = [''red'', ''blue'']"
  unfolding cross_product_input_def by code_simp

lemma cross_product_bare_output:
  "parseScssFiles [cross_product_bare_input] =
     [''red'', ''blue'', ''btn-red-1'', ''btn-red-2'', ''btn-blue-1'', ''btn-blue-2'']"
  unfolding cross_product_bare_input_def by code_simp




text \<open>
  C5, as the code has it. Every key of a declaration that passes the filter is added
  directly, whatever the mixin invocations do, provided the entry has some text before
  its first colon: \<open>addClassesFromVariable\<close> skips an entry whose key text is empty
  (\<open>if (key)\<close>). So every non-empty valid key of the symbol table is in the output.
\<close>

theorem declared_keys_are_direct_candidates:
  assumes "content \<in> set files" and "(n, body) \<in> set (variable_matches content)"
  shows "(\<forall>e \<in> set (entries body).
            raw_key e \<noteq> [] \<and> isValidClassName (table_key e)
            \<longrightarrow> table_key e \<in> set (parseScssFiles files))
       \<and> (\<forall>k \<in> set (map fst (parseVariableContent body)).
            k \<noteq> [] \<and> isValidClassName k \<longrightarrow> k \<in> set (parseScssFiles files))"
proof (intro conjI ballI impI)
  fix e
  assume "e \<in> set (entries body)" "raw_key e \<noteq> [] \<and> isValidClassName (table_key e)"
  then show "table_key e \<in> set (parseScssFiles files)"
    using declared_key_in_output[OF assms] by blast
next
  fix k
  assume k: "k \<in> set (map fst (parseVariableContent body))" "k \<noteq> [] \<and> isValidClassName k"
  then obtain e where e: "e \<in> set (entries body)" "k = table_key e"
    unfolding keys_parseVariableContent by auto
  have "raw_key e \<noteq> []"
    using k(2) e(2) by (auto simp: table_key_raw_key trim_def strip_quotes_def)
  then show "k \<in> set (parseScssFiles files)"
    using declared_key_in_output[OF assms e(1)] k(2) e(2) by simp
qed

theorem declared_keys_are_direct_candidates_witness:
  "(''spacing'', ''sm: 4px, lg: 16px'') \<in> set (variable_matches spacing_input)
   \<and> map fst (parseVariableContent ''sm: 4px, lg: 16px'') = [''sm'', ''lg'']
   \<and> isValidClassName ''sm'' \<and> isValidClassName ''lg''
   \<and> ''sm'' \<in> set (parseScssFiles [spacing_input]) \<and> ''lg'' \<in> set (parseScssFiles [spacing_input])
   \<and> ''spacing'' \<notin> set (parseScssFiles [spacing_input])
   \<and> ''4px'' \<notin> set (parseScssFiles [spacing_input])
   \<and> ''16px'' \<notin> set (parseScssFiles [spacing_input])"
proof -
  have h1: "spacing_input \<in> set [spacing_input]" by simp
  have h2: "(''spacing'', ''sm: 4px, lg: 16px'') \<in> set (variable_matches spacing_input)"
    unfolding spacing_input_def by code_simp
  have ks: "map fst (parseVariableContent ''sm: 4px, lg: 16px'') = [''sm'', ''lg'']"
    by code_simp
  have v: "isValidClassName ''sm''" "isValidClassName ''lg''" by code_simp+
  have out: "parseScssFiles [spacing_input] = [''sm'', ''lg'']"
    unfolding spacing_input_def by code_simp
  have "''sm'' \<in> set (parseScssFiles [spacing_input]) \<and> ''lg'' \<in> set (parseScssFiles [spacing_input])"
    using declared_keys_are_direct_candidates[OF h1 h2] v unfolding ks by simp
  then show ?thesis using h2 ks v unfolding out by simp
qed

text \<open>
  C5 as stated fails: with a trailing comma the declaration has an empty last entry,
  its key in the symbol table is the empty string, the filter accepts the empty
  string, and the output does not hold it.
\<close>

theorem empty_entry_key_not_emitted_counterexample:
  "variable_matches trailing_comma_input = [(''m'', ''a: 1,'')]
   \<and> map fst (parseVariableContent ''a: 1,'') = [''a'', []]
   \<and> isValidClassName []
   \<and> parseScssFiles [trailing_comma_input] = [''a'']"
  unfolding trailing_comma_input_def by code_simp

text \<open>
  C6. Wherever a file holds a dot, an identifier, optional whitespace and an opening
  brace, the scanner extracts the identifier; the identifier is in the output exactly
  when it passes the filter.
\<close>

theorem class_selector_extracted:
  assumes "content = pre @ ''.'' @ name @ ws @ ''{'' @ post"
    and "name \<noteq> []" and "list_all is_ident name" and "list_all is_ws ws"
    and "content \<in> set files"
  shows "name \<in> set (class_matches content)
         \<and> (name \<in> set (parseScssFiles files)) = isValidClassName name"
proof -
  have found: "name \<in> set (class_matches content)"
    unfolding class_matches_def assms(1)
    using class_occurrence_found[OF assms(2-4), of True pre post] by simp
  have "name \<in> set (parseScssFiles files)" if "isValidClassName name"
    unfolding parseScssFiles_def
    by (rule in_parse_files[OF assms(5)]) (rule in_parse_file_classes[OF found that])
  then show ?thesis using found parseScssFiles_valid[of name files] by blast
qed

theorem class_selector_extracted_witness:
  "selector_input = [] @ ''.'' @ ''button-primary'' @ '' '' @ ''{'' @ '' color: red; }''
   \<and> list_all is_ident ''button-primary'' \<and> list_all is_ws '' ''
   \<and> ''button-primary'' \<in> set (class_matches selector_input)
   \<and> isValidClassName ''button-primary''
   \<and> ''button-primary'' \<in> set (parseScssFiles [selector_input])"
proof -
  have h1: "selector_input = [] @ ''.'' @ ''button-primary'' @ '' '' @ ''{'' @ '' color: red; }''"
    by (simp add: selector_input_def)
  have h2: "''button-primary'' \<noteq> []" by simp
  have h3: "list_all is_ident ''button-primary''" by code_simp
  have h4: "list_all is_ws '' ''" by code_simp
  have h5: "selector_input \<in> set [selector_input]" by simp
  have v: "isValidClassName ''button-primary''" by code_simp
  show ?thesis
    using class_selector_extracted[OF h1 h2 h3 h4 h5] h1 h3 h4 v by simp
qed




text \<open>
  C8. The two files' engines disagree on a corpus with a \<open>ds4-scale-class\<close> invocation:
  \<open>server.ts\<close> admits the first argument \<open>btn-\<close> as a name and expands nothing, the other
  engine forms the cross product of the keys of the two maps. They disagree on the
  example of section 8 as well, where \<open>server.ts\<close> adds \<open>btn-\<close> to \<open>red\<close> and \<open>blue\<close>.
  Neither corpus reaches the pattern that \<open>server.ts\<close> builds from a name, so this holds
  whatever \<open>regexp_exec\<close> is.
\<close>

theorem engines_differ_on_scale_class:
  "parseScssFiles_server regexp_exec [scale_class_input] = Inr [''red'', ''sm'', ''btn-'']
   \<and> parseScssFiles [scale_class_input] = [''red'', ''sm'', ''btn-red-sm'']
   \<and> map fst (mixin_matches scale_class_input) = [''ds4-scale-class'']
   \<and> set [''red'', ''sm'', ''btn-''] \<noteq> set [''red'', ''sm'', ''btn-red-sm'']
   \<and> parseScssFiles_server regexp_exec [cross_product_input] = Inr [''red'', ''blue'', ''btn-'']"
  unfolding scale_class_input_def cross_product_input_def by code_simp

text \<open>
  C9. The filter accepts the empty string, and the empty string reaches the output: a
  map whose key is a quoted empty string yields it.
\<close>

theorem empty_string_reaches_output:
  "isValidClassName [] \<and> [] \<in> set (parseScssFiles [empty_key_input])
   \<and> parseScssFiles [empty_key_input] = [[]]"
  unfolding empty_key_input_def by code_simp




end
